theory Spec2Isabelle
  imports Complex_Main
begin

section \<open>The game \<open>survive.py\<close>: data model\<close>

text \<open>
  The program is a single Python module built on a physics engine and a game engine;
  one \<open>Game\<close> is created and the engine calls its \<open>update\<close> once per frame.
  Python floats are idealised as real numbers, Python integers are \<open>int\<close>, and every
  object that the program mutates through several references (bullets, enemies,
  particle emitters, particles) lives in a store indexed by a reference; the lists of
  the game hold references. A \<open>list.remove\<close> of an absent element raises
  \<open>ValueError\<close>, which is a value of the models below.
\<close>

definition WIDTH :: real where "WIDTH = 256"
definition HEIGHT :: real where "HEIGHT = 196"
definition MAX_WIDTH :: real where "MAX_WIDTH = 1000"
definition INITIAL_ENEMIES :: nat where "INITIAL_ENEMIES = 5"

datatype ColType = PLAYER | ENEMY | TARGET | BULLET

datatype GameState = RUNNING | GAME_OVER | HAS_WON

datatype error = ValueError

type_synonym ref = nat

type_synonym Vec2d = "real \<times> real"

definition vadd :: "Vec2d \<Rightarrow> Vec2d \<Rightarrow> Vec2d" where
  "vadd a b = (fst a + fst b, snd a + snd b)"

text \<open>The bodies that the program itself adds to or removes from the physics world.\<close>

datatype body = PlayerBody | EnemyBody ref | ParticleBody ref

record shape =
  collision_type :: ColType
  shape_body :: body

text \<open>
  The contact descriptor handed to a collision callback by the engine: the two shapes in
  the engine's order, and the contact normal as seen from a given shape.
\<close>

record arbiter =
  shapes :: "shape \<times> shape"
  normal_from :: "shape \<Rightarrow> Vec2d"

subsection \<open>Bullet\<close>

record Bullet =
  b_position :: Vec2d
  b_velocity :: Vec2d
  life_time :: int

text \<open>\<open>math.atan2\<close> over the reals (signed zeros are not distinguished).\<close>

definition atan2 :: "real \<Rightarrow> real \<Rightarrow> real" where
  "atan2 y x =
     (if 0 < x then arctan (y / x)
      else if x < 0 \<and> 0 \<le> y then arctan (y / x) + pi
      else if x < 0 \<and> y < 0 then arctan (y / x) - pi
      else if 0 < y then pi / 2
      else if y < 0 then - pi / 2
      else 0)"

text \<open>\<open>Bullet.__init__\<close>; the class attribute \<open>life_time = 150\<close> is the initial value.\<close>

definition Bullet_init :: "real \<Rightarrow> real \<Rightarrow> real \<Rightarrow> real \<Rightarrow> Bullet" where
  "Bullet_init x y target_x target_y =
     (let angle = atan2 (target_y - y) (target_x - x)
      in \<lparr>b_position = (x, y), b_velocity = (cos angle, sin angle), life_time = 150\<rparr>)"

text \<open>
  \<open>Bullet.update\<close>: the bullet after the call, and whether the call invokes the removal
  callback \<open>self.del_bullet(self)\<close>.
\<close>

definition Bullet_update :: "Bullet \<Rightarrow> Bullet \<times> bool" where
  "Bullet_update b =
     (let dp = vadd (b_position b) (b_velocity b);
          b1 = b\<lparr>b_position := dp\<rparr>;
          b2 = b1\<lparr>life_time := life_time b1 - 1\<rparr>
      in (b2, life_time b2 < 0))"

subsection \<open>Player\<close>

record Player =
  position :: Vec2d
  velocity :: Vec2d
  force :: Vec2d
  mass :: real
  can_jump :: bool

definition Player_SPEED :: real where "Player_SPEED = 90"
definition JUMP_SPEED :: real where "JUMP_SPEED = 120"

text \<open>What the game engine reports in one frame: keys, mouse button and mouse position.\<close>

record frame_input =
  btn_KEY_A :: bool
  btn_KEY_D :: bool
  btnp_KEY_W :: bool
  btnp_MOUSE_LEFT :: bool
  mouse_x :: real
  mouse_y :: real

definition Player_init :: "real \<Rightarrow> real \<Rightarrow> real \<Rightarrow> Player" where
  "Player_init m x y =
     \<lparr>position = (x, y), velocity = (0, 0), force = (0, 0), mass = m, can_jump = False\<rparr>"

definition Player_update :: "frame_input \<Rightarrow> Player \<Rightarrow> Player" where
  "Player_update inp p =
     (let v = velocity p;
          m = mass p;
          p1 = p\<lparr>force := vadd (force p) (0, - m * 200)\<rparr>;
          v1 = (if btn_KEY_A inp then
                  (if can_jump p1 then (- Player_SPEED, snd v) else (- Player_SPEED / 2, snd v))
                else if btn_KEY_D inp then
                  (if can_jump p1 then (Player_SPEED, snd v) else (Player_SPEED / 2, snd v))
                else (let r = (if can_jump p1 then 0.5 else 1.0) in (fst v * r, snd v)));
          v2 = (if can_jump p1 \<and> btnp_KEY_W inp then (fst v1, JUMP_SPEED) else v1)
      in p1\<lparr>velocity := v2\<rparr>)"

text \<open>The two collision callbacks registered by \<open>Player.register\<close>.\<close>

definition player_shape :: shape where
  "player_shape = \<lparr>collision_type = PLAYER, shape_body = PlayerBody\<rparr>"

definition Player_col_start :: "arbiter \<Rightarrow> Player \<Rightarrow> Player" where
  "Player_col_start arb p =
     (let n = normal_from arb player_shape in p\<lparr>can_jump := (snd n \<le> - 0.5)\<rparr>)"

definition Player_col_end :: "arbiter \<Rightarrow> Player \<Rightarrow> Player" where
  "Player_col_end arb p = p\<lparr>can_jump := False\<rparr>"

subsection \<open>Enemy, particles and emitters\<close>

record Enemy =
  e_position :: Vec2d
  radius :: real
  lives :: int

record Particle =
  p_position :: Vec2d
  p_velocity :: Vec2d
  p_duration :: real

definition MAX_DURATION :: real where "MAX_DURATION = 30"
definition MAX_GENERATED :: int where "MAX_GENERATED = 100"

record DeathParticles =
  dp_particles :: "ref list"
  duration :: real
  generated :: int
  color_scale :: real

definition DeathParticles_init :: DeathParticles where
  "DeathParticles_init =
     \<lparr>dp_particles = [], duration = MAX_DURATION, generated = 0,
      color_scale = MAX_DURATION / 6\<rparr>"

definition keep_generating :: "DeathParticles \<Rightarrow> bool" where
  "keep_generating d = (generated d < MAX_GENERATED)"

subsection \<open>Game\<close>

text \<open>
  What lies outside the program: the module \<open>random\<close> is a source of draws read in
  order (\<open>rnd_real\<close> and \<open>rnd_int\<close> give the value of the draw made at a given position
  of the sequence, the game state counts the draws made so far, and no bound on the
  values is assumed), and \<open>local_to_world\<close> is the engine's transformation from the
  coordinates of an enemy's body to world coordinates.
\<close>

record extern =
  rnd_real :: "nat \<Rightarrow> real"
  rnd_int :: "nat \<Rightarrow> int"
  local_to_world :: "ref \<Rightarrow> Vec2d \<Rightarrow> Vec2d"

record Game =
  state :: GameState
  player :: Player
  enemies :: "ref list"
  bullets :: "ref list"
  particles :: "ref list"
  enemy_heap :: "ref \<Rightarrow> Enemy"
  bullet_heap :: "ref \<Rightarrow> Bullet"
  death_heap :: "ref \<Rightarrow> DeathParticles"
  particle_heap :: "ref \<Rightarrow> Particle"
  space :: "body list"
  next_ref :: ref
  rnd_pos :: nat

definition MAX_BULLETS :: nat where "MAX_BULLETS = 10"

text \<open>
  The physics world belongs to the engine. The model keeps the bodies that the program
  has added to it; removing a body takes it out of the world.
\<close>

definition space_add :: "body \<Rightarrow> Game \<Rightarrow> Game" where
  "space_add x g = g\<lparr>space := space g @ [x]\<rparr>"

definition space_remove :: "body \<Rightarrow> Game \<Rightarrow> Game" where
  "space_remove x g = g\<lparr>space := removeAll x (space g)\<rparr>"

subsection \<open>Messages\<close>

definition handle_hit_player :: "ref \<Rightarrow> Game \<Rightarrow> Game" where
  "handle_hit_player sender g = g\<lparr>state := GAME_OVER\<rparr>"

text \<open>
  \<open>Game.message\<close> looks the handler up by name; \<open>handle_hit_player\<close> is the only
  attribute of the class whose name starts with \<open>handle_\<close>, and an unknown message is
  printed and dropped.
\<close>

definition message :: "string \<Rightarrow> ref \<Rightarrow> Game \<Rightarrow> Game" where
  "message msg sender g =
     (if msg = ''hit_player'' then handle_hit_player sender g else g)"

subsection \<open>The begin-collision callback of \<open>Enemy.register\<close>\<close>

text \<open>The pair \<open>(player, enemy)\<close> that the callback assigns from \<open>arb.shapes\<close>.\<close>

definition begin_roles :: "arbiter \<Rightarrow> shape \<times> shape" where
  "begin_roles arb =
     (let shape_a = fst (shapes arb); shape_b = snd (shapes arb)
      in if collision_type shape_a = PLAYER then (shape_a, shape_b) else (shape_b, shape_b))"

definition Enemy_begin :: "ref \<Rightarrow> arbiter \<Rightarrow> Game \<Rightarrow> Game" where
  "Enemy_begin self arb g =
     (let player_s = fst (begin_roles arb);
          enemy_s = snd (begin_roles arb);
          n = normal_from arb player_s
      in if snd n < 0.25 then space_remove (shape_body enemy_s) g
         else message ''hit_player'' self g)"

subsection \<open>One step of the physics world\<close>

text \<open>
  \<open>space.step\<close> is the engine's: it moves the bodies of the world and calls the callbacks
  that the program registered. A step is given by the sequence of these effects, in
  the order in which the engine produces them.
\<close>

datatype phys_event =
    PostSolvePlayer arbiter
  | SeparatePlayer arbiter
  | BeginPlayerEnemy ref arbiter
  | MovePlayer Vec2d Vec2d Vec2d
  | MoveEnemy ref Vec2d
  | MoveParticle ref Vec2d Vec2d

fun apply_event :: "phys_event \<Rightarrow> Game \<Rightarrow> Game" where
  "apply_event (PostSolvePlayer arb) g = g\<lparr>player := Player_col_start arb (player g)\<rparr>"
| "apply_event (SeparatePlayer arb) g = g\<lparr>player := Player_col_end arb (player g)\<rparr>"
| "apply_event (BeginPlayerEnemy self arb) g = Enemy_begin self arb g"
| "apply_event (MovePlayer pos vel frc) g =
     g\<lparr>player := (player g)\<lparr>position := pos, velocity := vel, force := frc\<rparr>\<rparr>"
| "apply_event (MoveEnemy e pos) g =
     g\<lparr>enemy_heap := (enemy_heap g)(e := (enemy_heap g e)\<lparr>e_position := pos\<rparr>)\<rparr>"
| "apply_event (MoveParticle p pos vel) g =
     g\<lparr>particle_heap :=
         (particle_heap g)(p := (particle_heap g p)\<lparr>p_position := pos, p_velocity := vel\<rparr>)\<rparr>"

definition space_step :: "phys_event list \<Rightarrow> Game \<Rightarrow> Game" where
  "space_step evs g = fold apply_event evs g"

record frame =
  events :: "phys_event list"
  input :: frame_input

subsection \<open>DeathParticles\<close>

definition emmit :: "extern \<Rightarrow> ref \<Rightarrow> Vec2d \<Rightarrow> Vec2d \<Rightarrow> Game \<Rightarrow> Game" where
  "emmit X d pos vel g =
     (if \<not> keep_generating (death_heap g d) then g
      else
        (let g1 = g\<lparr>death_heap := (death_heap g)
                      (d := (death_heap g d)\<lparr>generated := generated (death_heap g d) + 1\<rparr>)\<rparr>;
             p = next_ref g1;
             g2 = space_add (ParticleBody p) (g1\<lparr>next_ref := Suc p\<rparr>);
             x = rnd_real X (rnd_pos g2);
             g3 = g2\<lparr>rnd_pos := Suc (rnd_pos g2)\<rparr>;
             g4 = g3\<lparr>particle_heap := (particle_heap g3)
                      (p := \<lparr>p_position = pos, p_velocity = vel,
                             p_duration = duration (death_heap g3 d) - x\<rparr>)\<rparr>
         in g4\<lparr>death_heap := (death_heap g4)
                  (d := (death_heap g4 d)
                     \<lparr>dp_particles := dp_particles (death_heap g4 d) @ [p]\<rparr>)\<rparr>))"

text \<open>The body of \<open>for _ in range(batch_size)\<close>, run \<open>n\<close> times.\<close>

fun generate_loop :: "nat \<Rightarrow> extern \<Rightarrow> ref \<Rightarrow> Vec2d \<Rightarrow> Game \<Rightarrow> Game" where
  "generate_loop 0 X d pos g = g"
| "generate_loop (Suc n) X d pos g =
     (let k = rnd_pos g;
          vel = (rnd_real X k * sin (real_of_int (rnd_int X (k + 1))),
                 rnd_real X (k + 2) * sin (real_of_int (rnd_int X (k + 3))));
          g1 = g\<lparr>rnd_pos := k + 4\<rparr>
      in generate_loop n X d pos (emmit X d pos vel g1))"

definition generate_particles :: "extern \<Rightarrow> ref \<Rightarrow> Vec2d \<Rightarrow> int \<Rightarrow> Game \<Rightarrow> Game" where
  "generate_particles X d pos batch_size g =
     (if \<not> keep_generating (death_heap g d) then g
      else generate_loop (nat batch_size) X d pos g)"

text \<open>\<open>Vec2d.rotated\<close> of the engine, by an angle in degrees.\<close>

definition rotated :: "Vec2d \<Rightarrow> real \<Rightarrow> Vec2d" where
  "rotated v deg =
     (let t = deg * pi / 180
      in (fst v * cos t - snd v * sin t, fst v * sin t + snd v * cos t))"

definition remove_death_particle :: "ref \<Rightarrow> Game \<Rightarrow> error + Game" where
  "remove_death_particle d g =
     (if d \<in> set (particles g) then Inr (g\<lparr>particles := remove1 d (particles g)\<rparr>)
      else Inl ValueError)"

text \<open>The body of the loop of \<open>DeathParticles.update\<close> for one particle \<open>p\<close>.\<close>

definition particle_step :: "extern \<Rightarrow> ref \<Rightarrow> ref \<Rightarrow> Game \<Rightarrow> error + Game" where
  "particle_step X d p g =
     (let q = particle_heap g p;
          q1 = q\<lparr>p_velocity := rotated (p_velocity q) (rnd_real X (rnd_pos g))\<rparr>;
          q2 = q1\<lparr>p_duration := p_duration q1 - 1\<rparr>;
          g1 = g\<lparr>rnd_pos := Suc (rnd_pos g), particle_heap := (particle_heap g)(p := q2)\<rparr>
      in if p_duration q2 \<le> 0 then
           (if p \<in> set (dp_particles (death_heap g1 d)) then
              Inr (space_remove (ParticleBody p)
                    (g1\<lparr>death_heap := (death_heap g1)
                          (d := (death_heap g1 d)
                             \<lparr>dp_particles := remove1 p (dp_particles (death_heap g1 d))\<rparr>)\<rparr>))
            else Inl ValueError)
         else Inr g1)"

text \<open>The loop runs over a copy of the particle list, taken before the first step.\<close>

fun particles_loop :: "ref list \<Rightarrow> extern \<Rightarrow> ref \<Rightarrow> Game \<Rightarrow> error + Game" where
  "particles_loop [] X d g = Inr g"
| "particles_loop (p # ps) X d g =
     (case particle_step X d p g of
        Inl err \<Rightarrow> Inl err
      | Inr g1 \<Rightarrow> particles_loop ps X d g1)"

definition DeathParticles_update :: "extern \<Rightarrow> ref \<Rightarrow> Game \<Rightarrow> error + Game" where
  "DeathParticles_update X d g =
     (case particles_loop (dp_particles (death_heap g d)) X d g of
        Inl err \<Rightarrow> Inl err
      | Inr g1 \<Rightarrow>
          if length (dp_particles (death_heap g1 d)) = 0 then remove_death_particle d g1
          else Inr g1)"

subsection \<open>Removal of bullets and enemies\<close>

definition del_bullet :: "ref \<Rightarrow> Game \<Rightarrow> error + Game" where
  "del_bullet b g =
     (if b \<in> set (bullets g) then Inr (g\<lparr>bullets := remove1 b (bullets g)\<rparr>)
      else Inl ValueError)"

definition del_enemy :: "extern \<Rightarrow> ref \<Rightarrow> Game \<Rightarrow> error + Game" where
  "del_enemy X e g =
     (if e \<in> set (enemies g) then
        (let g1 = g\<lparr>enemies := remove1 e (enemies g)\<rparr>;
             g2 = space_remove (EnemyBody e) g1;
             death = next_ref g2;
             g3 = g2\<lparr>next_ref := Suc death,
                    death_heap := (death_heap g2)(death := DeathParticles_init)\<rparr>;
             u = rnd_real X (rnd_pos g3);
             g4 = g3\<lparr>rnd_pos := Suc (rnd_pos g3)\<rparr>;
             enemy_position = local_to_world X e (u, - 3);
             g5 = generate_particles X death enemy_position 100 g4
         in Inr (g5\<lparr>particles := particles g5 @ [death]\<rparr>))
      else Inl ValueError)"

subsection \<open>Bullets against enemies\<close>

text \<open>The body of \<open>if dx + dy <= e.radius ** 2\<close> in \<open>verify_bullet_hit_enemies\<close>.\<close>

definition hit_enemy :: "extern \<Rightarrow> ref \<Rightarrow> ref \<Rightarrow> Game \<Rightarrow> error + Game" where
  "hit_enemy X b e g =
     (case del_bullet b g of
        Inl err \<Rightarrow> Inl err
      | Inr g1 \<Rightarrow>
          (let g2 = g1\<lparr>enemy_heap := (enemy_heap g1)
                        (e := (enemy_heap g1 e)\<lparr>lives := lives (enemy_heap g1 e) - 1\<rparr>)\<rparr>
           in if lives (enemy_heap g2 e) \<le> 0 then del_enemy X e g2 else Inr g2))"

definition check_enemy :: "extern \<Rightarrow> ref \<Rightarrow> Vec2d \<Rightarrow> ref \<Rightarrow> Game \<Rightarrow> error + Game" where
  "check_enemy X b bp e g =
     (let ex = fst (e_position (enemy_heap g e));
          ey = snd (e_position (enemy_heap g e));
          dx = (fst bp - ex) ^ 2;
          dy = (snd bp - ey) ^ 2
      in if dx + dy \<le> (radius (enemy_heap g e)) ^ 2 then hit_enemy X b e g else Inr g)"

subsection \<open>What the operations leave unchanged\<close>

lemma emmit_frame [simp]:
  "state (emmit X d pos vel g) = state g"
  "player (emmit X d pos vel g) = player g"
  "enemies (emmit X d pos vel g) = enemies g"
  "bullets (emmit X d pos vel g) = bullets g"
  "particles (emmit X d pos vel g) = particles g"
  "enemy_heap (emmit X d pos vel g) = enemy_heap g"
  "bullet_heap (emmit X d pos vel g) = bullet_heap g"
  by (simp_all add: emmit_def Let_def space_add_def)

lemma generate_loop_frame [simp]:
  "state (generate_loop n X d pos g) = state g"
  "player (generate_loop n X d pos g) = player g"
  "enemies (generate_loop n X d pos g) = enemies g"
  "bullets (generate_loop n X d pos g) = bullets g"
  "particles (generate_loop n X d pos g) = particles g"
  "enemy_heap (generate_loop n X d pos g) = enemy_heap g"
  "bullet_heap (generate_loop n X d pos g) = bullet_heap g"
  by (induction n arbitrary: g; simp add: Let_def)+

lemma generate_particles_frame [simp]:
  "state (generate_particles X d pos k g) = state g"
  "player (generate_particles X d pos k g) = player g"
  "enemies (generate_particles X d pos k g) = enemies g"
  "bullets (generate_particles X d pos k g) = bullets g"
  "particles (generate_particles X d pos k g) = particles g"
  "enemy_heap (generate_particles X d pos k g) = enemy_heap g"
  "bullet_heap (generate_particles X d pos k g) = bullet_heap g"
  by (simp_all add: generate_particles_def)

lemma del_bullet_frame:
  assumes "del_bullet b g = Inr g1"
  shows "state g1 = state g" "player g1 = player g" "enemies g1 = enemies g"
    "particles g1 = particles g" "enemy_heap g1 = enemy_heap g"
    "bullet_heap g1 = bullet_heap g" "bullets g1 = remove1 b (bullets g)"
    "b \<in> set (bullets g)"
  using assms by (auto simp: del_bullet_def split: if_splits)

lemma del_enemy_frame:
  assumes "del_enemy X e g = Inr g1"
  shows "state g1 = state g" "player g1 = player g" "enemies g1 = remove1 e (enemies g)"
    "bullets g1 = bullets g" "enemy_heap g1 = enemy_heap g"
    "bullet_heap g1 = bullet_heap g" "e \<in> set (enemies g)"
    "particles g1 = particles g @ [next_ref g]"
  using assms by (auto simp: del_enemy_def Let_def space_remove_def split: if_splits)

lemma hit_enemy_frame:
  assumes "hit_enemy X b e g = Inr g1"
  shows "state g1 = state g" "player g1 = player g"
    "bullet_heap g1 = bullet_heap g" "bullets g1 = remove1 b (bullets g)"
    "b \<in> set (bullets g)"
    "length (enemies g1) \<le> length (enemies g)"
    "set (enemies g1) \<subseteq> set (enemies g)"
  using assms
  by (auto simp: hit_enemy_def Let_def del_bullet_frame del_enemy_frame length_remove1
      split: sum.splits if_splits dest: set_remove1_subset[THEN subsetD])

lemma check_enemy_frame:
  assumes "check_enemy X b bp e g = Inr g1"
  shows "state g1 = state g" "player g1 = player g"
    "bullet_heap g1 = bullet_heap g"
    "length (enemies g1) \<le> length (enemies g)"
    "set (enemies g1) \<subseteq> set (enemies g)"
    "length (bullets g1) \<le> length (bullets g)"
  using assms
  by (auto simp: check_enemy_def Let_def hit_enemy_frame length_remove1 split: if_splits
      dest: hit_enemy_frame(7)[THEN subsetD])

text \<open>
  \<open>for e in self.enemies\<close>, with the list changing under the loop: the iterator of a
  Python list keeps an index, stops when the index reaches the current length, and
  otherwise yields the element at the index and advances. \<open>bp\<close> is the position of the
  bullet, read once before the loop.
\<close>

function enemies_loop :: "extern \<Rightarrow> ref \<Rightarrow> Vec2d \<Rightarrow> nat \<Rightarrow> Game \<Rightarrow> error + Game" where
  "enemies_loop X b bp j g =
     (if j < length (enemies g) then
        (case check_enemy X b bp (enemies g ! j) g of
           Inl err \<Rightarrow> Inl err
         | Inr g1 \<Rightarrow> enemies_loop X b bp (Suc j) g1)
      else Inr g)"
  by pat_completeness auto
termination
  by (relation "measure (\<lambda>(X, b, bp, j, g). length (enemies g) - j)")
     (auto dest: check_enemy_frame(4))

declare enemies_loop.simps [simp del]

definition verify_bullet_hit_enemies :: "extern \<Rightarrow> ref \<Rightarrow> Game \<Rightarrow> error + Game" where
  "verify_bullet_hit_enemies X b g = enemies_loop X b (b_position (bullet_heap g b)) 0 g"

lemma enemies_loop_frame:
  "enemies_loop X b bp j g = Inr g1 \<Longrightarrow>
     state g1 = state g \<and> player g1 = player g \<and> bullet_heap g1 = bullet_heap g \<and>
     length (enemies g1) \<le> length (enemies g) \<and> set (enemies g1) \<subseteq> set (enemies g) \<and>
     length (bullets g1) \<le> length (bullets g)"
proof (induction X b bp j g rule: enemies_loop.induct)
  case (1 X b bp j g)
  show ?case
  proof (cases "j < length (enemies g)")
    case False
    with "1.prems" show ?thesis by (simp add: enemies_loop.simps)
  next
    case True
    with "1.prems" obtain g2 where
      c: "check_enemy X b bp (enemies g ! j) g = Inr g2" and
      l: "enemies_loop X b bp (Suc j) g2 = Inr g1"
      by (auto simp: enemies_loop.simps[of X b bp j g] split: sum.splits)
    from "1.IH"[OF True c l] check_enemy_frame[OF c] show ?thesis by auto
  qed
qed

lemma verify_bullet_hit_enemies_frame:
  assumes "verify_bullet_hit_enemies X b g = Inr g1"
  shows "state g1 = state g" "player g1 = player g" "bullet_heap g1 = bullet_heap g"
    "length (enemies g1) \<le> length (enemies g)" "set (enemies g1) \<subseteq> set (enemies g)"
    "length (bullets g1) \<le> length (bullets g)"
  using enemies_loop_frame[OF assms[unfolded verify_bullet_hit_enemies_def]] by simp_all

text \<open>\<open>Bullet.update\<close> on the bullet \<open>b\<close> of the game, with \<open>Game.del_bullet\<close> as its callback.\<close>

definition bullet_update :: "ref \<Rightarrow> Game \<Rightarrow> error + Game" where
  "bullet_update b g =
     (let r = Bullet_update (bullet_heap g b);
          g1 = g\<lparr>bullet_heap := (bullet_heap g)(b := fst r)\<rparr>
      in if snd r then del_bullet b g1 else Inr g1)"

lemma bullet_update_frame:
  assumes "bullet_update b g = Inr g1"
  shows "state g1 = state g" "player g1 = player g" "enemies g1 = enemies g"
    "enemy_heap g1 = enemy_heap g" "particles g1 = particles g"
    "length (bullets g1) \<le> length (bullets g)"
  using assms
  by (auto simp: bullet_update_def Let_def length_remove1 split: if_splits
      dest: del_bullet_frame)

text \<open>
  \<open>for b in self.bullets\<close> in \<open>Game.update\<close>, over the changing list in the same way: the
  bullet at the index is updated and then checked against the enemies.
\<close>

function bullets_loop :: "extern \<Rightarrow> nat \<Rightarrow> Game \<Rightarrow> error + Game" where
  "bullets_loop X i g =
     (if i < length (bullets g) then
        (case bullet_update (bullets g ! i) g of
           Inl err \<Rightarrow> Inl err
         | Inr g1 \<Rightarrow>
             (case verify_bullet_hit_enemies X (bullets g ! i) g1 of
                Inl err \<Rightarrow> Inl err
              | Inr g2 \<Rightarrow> bullets_loop X (Suc i) g2))
      else Inr g)"
  by pat_completeness auto
termination
proof (relation "measure (\<lambda>(X, i, g). length (bullets g) - i)")
  fix X i g g1 g2
  assume "i < length (bullets g)" and u: "bullet_update (bullets g ! i) g = Inr g1"
    and v: "verify_bullet_hit_enemies X (bullets g ! i) g1 = Inr g2"
  with bullet_update_frame(6)[OF u] verify_bullet_hit_enemies_frame(6)[OF v]
  show "((X, Suc i, g2), (X, i, g)) \<in> measure (\<lambda>(X, i, g). length (bullets g) - i)"
    by simp
qed simp

declare bullets_loop.simps [simp del]

lemma particle_step_frame:
  assumes "particle_step X d p g = Inr g1"
  shows "state g1 = state g" "player g1 = player g" "enemies g1 = enemies g"
    "bullets g1 = bullets g" "particles g1 = particles g" "enemy_heap g1 = enemy_heap g"
    "bullet_heap g1 = bullet_heap g"
  using assms
  by (auto simp: particle_step_def Let_def space_remove_def split: if_splits)

lemma particles_loop_frame:
  "particles_loop ps X d g = Inr g1 \<Longrightarrow>
     state g1 = state g \<and> player g1 = player g \<and> enemies g1 = enemies g \<and>
     bullets g1 = bullets g \<and> particles g1 = particles g \<and> enemy_heap g1 = enemy_heap g \<and>
     bullet_heap g1 = bullet_heap g"
proof (induction ps arbitrary: g)
  case Nil
  then show ?case by simp
next
  case (Cons p ps)
  then obtain g2 where s: "particle_step X d p g = Inr g2"
    and l: "particles_loop ps X d g2 = Inr g1"
    by (auto split: sum.splits)
  from Cons.IH[OF l] particle_step_frame[OF s] show ?case by simp
qed

lemma DeathParticles_update_frame:
  assumes "DeathParticles_update X d g = Inr g1"
  shows "state g1 = state g" "player g1 = player g" "enemies g1 = enemies g"
    "bullets g1 = bullets g" "enemy_heap g1 = enemy_heap g"
    "bullet_heap g1 = bullet_heap g" "length (particles g1) \<le> length (particles g)"
  using assms
  by (auto simp: DeathParticles_update_def remove_death_particle_def length_remove1
      split: sum.splits if_splits dest: particles_loop_frame)

text \<open>\<open>for p in self.particles\<close> in \<open>Game.update\<close>, over the changing list of emitters.\<close>

function emitters_loop :: "extern \<Rightarrow> nat \<Rightarrow> Game \<Rightarrow> error + Game" where
  "emitters_loop X i g =
     (if i < length (particles g) then
        (case DeathParticles_update X (particles g ! i) g of
           Inl err \<Rightarrow> Inl err
         | Inr g1 \<Rightarrow> emitters_loop X (Suc i) g1)
      else Inr g)"
  by pat_completeness auto
termination
  by (relation "measure (\<lambda>(X, i, g). length (particles g) - i)")
     (auto dest: DeathParticles_update_frame(7))

declare emitters_loop.simps [simp del]

definition correct_mouse_distance :: "real \<Rightarrow> frame_input \<Rightarrow> Vec2d" where
  "correct_mouse_distance px inp = (px + mouse_x inp - (WIDTH / 2), mouse_y inp)"

definition shoot_bullet :: "frame_input \<Rightarrow> Game \<Rightarrow> Game" where
  "shoot_bullet inp g =
     (if length (bullets g) > MAX_BULLETS then g
      else
        (let px = fst (position (player g));
             py = snd (position (player g));
             m = correct_mouse_distance px inp;
             b = next_ref g;
             g1 = g\<lparr>next_ref := Suc b,
                    bullet_heap := (bullet_heap g)(b := Bullet_init px py (fst m) (snd m))\<rparr>
         in g1\<lparr>bullets := bullets g1 @ [b]\<rparr>))"

text \<open>
  \<open>Game.update\<close>. The camera belongs to the engine and holds no state of the program, so
  \<open>camera.follow\<close> has no counterpart here. An exception raised in one of the loops leaves
  the update at once.
\<close>

definition update :: "extern \<Rightarrow> frame \<Rightarrow> Game \<Rightarrow> error + Game" where
  "update X fr g =
     (let g1 = space_step (events fr) g;
          g2 = (if state g1 \<noteq> GAME_OVER
                then g1\<lparr>player := Player_update (input fr) (player g1)\<rparr> else g1)
      in case bullets_loop X 0 g2 of
           Inl err \<Rightarrow> Inl err
         | Inr g3 \<Rightarrow>
             (case emitters_loop X 0 g3 of
                Inl err \<Rightarrow> Inl err
              | Inr g4 \<Rightarrow>
                  (let g5 = (if state g4 = RUNNING \<and> btnp_MOUSE_LEFT (input fr)
                             then shoot_bullet (input fr) g4 else g4)
                   in Inr (if length (enemies g5) = 0 then g5\<lparr>state := HAS_WON\<rparr> else g5))))"

text \<open>
  \<open>Game.__init__\<close>: the loop that creates the enemies. \<open>Enemy.random\<close> draws two
  velocity components, the position and the angular velocity, and \<open>Enemy.__init__\<close>
  draws the radius; \<open>lives = 4\<close> is the class attribute.
\<close>

fun create_enemies :: "nat \<Rightarrow> extern \<Rightarrow> Game \<Rightarrow> Game" where
  "create_enemies 0 X g = g"
| "create_enemies (Suc n) X g =
     (let k = rnd_pos g;
          e = next_ref g;
          enemy = \<lparr>e_position = (rnd_real X (k + 2), rnd_real X (k + 3)),
                   radius = real_of_int (rnd_int X (k + 5)), lives = 4\<rparr>;
          g1 = g\<lparr>rnd_pos := k + 6, next_ref := Suc e,
                 enemy_heap := (enemy_heap g)(e := enemy)\<rparr>;
          g2 = space_add (EnemyBody e) g1
      in create_enemies n X (g2\<lparr>enemies := enemies g2 @ [e]\<rparr>))"

definition Game_init :: "extern \<Rightarrow> real \<Rightarrow> Game" where
  "Game_init X m =
     create_enemies INITIAL_ENEMIES X
       \<lparr>state = RUNNING, player = Player_init m 50 50, enemies = [], bullets = [],
        particles = [],
        enemy_heap = (\<lambda>_. \<lparr>e_position = (0, 0), radius = 0, lives = 4\<rparr>),
        bullet_heap = (\<lambda>_. \<lparr>b_position = (0, 0), b_velocity = (0, 0), life_time = 150\<rparr>),
        death_heap = (\<lambda>_. DeathParticles_init),
        particle_heap = (\<lambda>_. \<lparr>p_position = (0, 0), p_velocity = (0, 0), p_duration = 0\<rparr>),
        space = [PlayerBody], next_ref = 0, rnd_pos = 0\<rparr>"

text \<open>The run loop of the engine calls \<open>Game.update\<close> once per frame; an exception ends it.\<close>

fun run :: "extern \<Rightarrow> frame list \<Rightarrow> Game \<Rightarrow> error + Game" where
  "run X [] g = Inr g"
| "run X (fr # frs) g =
     (case update X fr g of Inl err \<Rightarrow> Inl err | Inr g1 \<Rightarrow> run X frs g1)"

section \<open>Concrete inputs\<close>

text \<open>Inputs at which the theorems below are evaluated.\<close>

definition X0 :: extern where
  "X0 = \<lparr>rnd_real = (\<lambda>_. 0), rnd_int = (\<lambda>_. 0), local_to_world = (\<lambda>e v. v)\<rparr>"

definition no_input :: frame_input where
  "no_input = \<lparr>btn_KEY_A = False, btn_KEY_D = False, btnp_KEY_W = False,
     btnp_MOUSE_LEFT = False, mouse_x = 0, mouse_y = 0\<rparr>"

definition jump_input :: frame_input where
  "jump_input = no_input\<lparr>btn_KEY_A := True, btnp_KEY_W := True\<rparr>"

definition quiet :: frame where
  "quiet = \<lparr>events = [], input = no_input\<rparr>"

definition g_base :: Game where
  "g_base = \<lparr>state = RUNNING, player = Player_init 1 50 50, enemies = [], bullets = [],
        particles = [],
        enemy_heap = (\<lambda>_. \<lparr>e_position = (0, 0), radius = 4, lives = 4\<rparr>),
        bullet_heap = (\<lambda>_. \<lparr>b_position = (0, 0), b_velocity = (0, 0), life_time = 150\<rparr>),
        death_heap = (\<lambda>_. DeathParticles_init),
        particle_heap = (\<lambda>_. \<lparr>p_position = (0, 0), p_velocity = (0, 0), p_duration = 0\<rparr>),
        space = [PlayerBody], next_ref = 10, rnd_pos = 0\<rparr>"

definition enemy_shape :: "ref \<Rightarrow> shape" where
  "enemy_shape e = \<lparr>collision_type = ENEMY, shape_body = EnemyBody e\<rparr>"

text \<open>A contact of the player with enemy 0, the normal from the player being \<open>(0, ny)\<close>.\<close>

definition contact :: "shape \<times> shape \<Rightarrow> real \<Rightarrow> arbiter" where
  "contact ss ny =
     \<lparr>shapes = ss,
      normal_from = (\<lambda>s. if collision_type s = PLAYER then (0, ny) else (0, - ny))\<rparr>"

section \<open>Player\<close>

text \<open>
  Claim C10. For a player with \<open>can_jump = false\<close>, \<open>Player.update\<close> leaves the vertical
  component of the velocity unchanged, whatever keys are pressed; the vertical component
  changes only when \<open>can_jump\<close> holds and the jump key is freshly pressed, and it is then
  \<open>JUMP_SPEED\<close>.
\<close>

theorem Player_update_vertical_velocity:
  "(\<not> can_jump p \<longrightarrow> snd (velocity (Player_update inp p)) = snd (velocity p)) \<and>
   (snd (velocity (Player_update inp p)) \<noteq> snd (velocity p) \<longrightarrow>
      can_jump p \<and> btnp_KEY_W inp \<and> snd (velocity (Player_update inp p)) = JUMP_SPEED)"
  by (simp add: Player_update_def Let_def)

theorem Player_update_vertical_velocity_witness:
  "\<not> can_jump (Player_init 1 50 50) \<and>
   snd (velocity (Player_update jump_input (Player_init 1 50 50))) =
     snd (velocity (Player_init 1 50 50)) \<and>
   snd (velocity (Player_update jump_input ((Player_init 1 50 50)\<lparr>can_jump := True\<rparr>))) \<noteq>
     snd (velocity ((Player_init 1 50 50)\<lparr>can_jump := True\<rparr>)) \<and>
   snd (velocity (Player_update jump_input ((Player_init 1 50 50)\<lparr>can_jump := True\<rparr>))) =
     JUMP_SPEED"
  using Player_update_vertical_velocity [of "Player_init 1 50 50" jump_input]
    Player_update_vertical_velocity [of "(Player_init 1 50 50)\<lparr>can_jump := True\<rparr>" jump_input]
  by (simp add: Player_init_def jump_input_def no_input_def Player_update_def JUMP_SPEED_def
      Let_def)

section \<open>The begin-collision callback\<close>

text \<open>
  Claim C1, as amended. For a contact whose first shape is the player's: when the
  y-component of the normal from the player is below 0.25 the callback removes the
  enemy's shape from the physics world and leaves the game state as it is (no message is
  sent); otherwise it sends \<open>hit_player\<close>, so that the state is \<open>GAME_OVER\<close>, and removes
  nothing.
\<close>

theorem Enemy_begin_branches:
  assumes "collision_type (fst (shapes arb)) = PLAYER"
  shows "(snd (normal_from arb (fst (shapes arb))) < 0.25 \<longrightarrow>
            state (Enemy_begin self arb g) = state g \<and>
            space (Enemy_begin self arb g) =
              removeAll (shape_body (snd (shapes arb))) (space g)) \<and>
         (\<not> snd (normal_from arb (fst (shapes arb))) < 0.25 \<longrightarrow>
            state (Enemy_begin self arb g) = GAME_OVER \<and>
            space (Enemy_begin self arb g) = space g)"
  using assms
  by (simp add: Enemy_begin_def begin_roles_def Let_def space_remove_def message_def
      handle_hit_player_def)

theorem Enemy_begin_branches_witness:
  "collision_type (fst (shapes (contact (player_shape, enemy_shape 0) 0))) = PLAYER \<and>
   snd (normal_from (contact (player_shape, enemy_shape 0) 0) player_shape) < 0.25 \<and>
   space (Enemy_begin 0 (contact (player_shape, enemy_shape 0) 0)
      (g_base\<lparr>space := [PlayerBody, EnemyBody 0]\<rparr>)) = [PlayerBody] \<and>
   \<not> snd (normal_from (contact (player_shape, enemy_shape 0) 1) player_shape) < 0.25 \<and>
   state (Enemy_begin 0 (contact (player_shape, enemy_shape 0) 1)
      (g_base\<lparr>space := [PlayerBody, EnemyBody 0]\<rparr>)) = GAME_OVER"
  using Enemy_begin_branches [of "contact (player_shape, enemy_shape 0) 0" 0
      "g_base\<lparr>space := [PlayerBody, EnemyBody 0]\<rparr>"]
    Enemy_begin_branches [of "contact (player_shape, enemy_shape 0) 1" 0
      "g_base\<lparr>space := [PlayerBody, EnemyBody 0]\<rparr>"]
  by (simp add: contact_def player_shape_def enemy_shape_def g_base_def)

text \<open>
  Claim C1 as stated fails: with the normal's y-component 0 (below 0.25) the enemy is
  removed and the state stays \<open>RUNNING\<close>; with y-component 1 the state becomes
  \<open>GAME_OVER\<close> and the enemy stays in the world.
\<close>

theorem Enemy_begin_low_normal_counterexample:
  "snd (normal_from (contact (player_shape, enemy_shape 0) 0) player_shape) < 0.25 \<and>
   state (Enemy_begin 0 (contact (player_shape, enemy_shape 0) 0)
      (g_base\<lparr>space := [PlayerBody, EnemyBody 0]\<rparr>)) = RUNNING \<and>
   space (Enemy_begin 0 (contact (player_shape, enemy_shape 0) 0)
      (g_base\<lparr>space := [PlayerBody, EnemyBody 0]\<rparr>)) = [PlayerBody] \<and>
   \<not> snd (normal_from (contact (player_shape, enemy_shape 0) 1) player_shape) < 0.25 \<and>
   state (Enemy_begin 0 (contact (player_shape, enemy_shape 0) 1)
      (g_base\<lparr>space := [PlayerBody, EnemyBody 0]\<rparr>)) = GAME_OVER \<and>
   space (Enemy_begin 0 (contact (player_shape, enemy_shape 0) 1)
      (g_base\<lparr>space := [PlayerBody, EnemyBody 0]\<rparr>)) = [PlayerBody, EnemyBody 0]"
  by (simp add: contact_def player_shape_def enemy_shape_def g_base_def Enemy_begin_def
      begin_roles_def Let_def space_remove_def message_def handle_hit_player_def)

text \<open>
  Claim C4 fails when the engine delivers the enemy's shape first: the callback then
  assigns the second shape, the player's, to both \<open>player\<close> and \<open>enemy\<close>, and the shape
  removed from the world is the one tagged \<open>PLAYER\<close>.
\<close>

theorem Enemy_begin_enemy_first_removes_player:
  "begin_roles (contact (enemy_shape 0, player_shape) 0) = (player_shape, player_shape) \<and>
   collision_type (snd (begin_roles (contact (enemy_shape 0, player_shape) 0))) = PLAYER \<and>
   space (Enemy_begin 0 (contact (enemy_shape 0, player_shape) 0)
      (g_base\<lparr>space := [PlayerBody, EnemyBody 0]\<rparr>)) = [EnemyBody 0]"
  by (simp add: contact_def player_shape_def enemy_shape_def g_base_def Enemy_begin_def
      begin_roles_def Let_def space_remove_def)

section \<open>Shooting\<close>

lemma length_shoot_bullet:
  "length (bullets (shoot_bullet inp g)) =
     (if length (bullets g) > MAX_BULLETS then length (bullets g)
      else Suc (length (bullets g)))"
  by (simp add: shoot_bullet_def Let_def)

lemma length_shoot_bullet_funpow:
  "length (bullets ((shoot_bullet inp ^^ n) g)) =
     (if length (bullets g) > MAX_BULLETS then length (bullets g)
      else min (length (bullets g) + n) (Suc MAX_BULLETS))"
  by (induction n) (auto simp: length_shoot_bullet MAX_BULLETS_def)

text \<open>
  Claim C3 fails: from an empty list of bullets, eleven calls of \<open>shoot_bullet\<close> in
  succession leave eleven bullets in the list, since the guard stops a shot only when the
  list already holds more than \<open>MAX_BULLETS\<close> bullets.
\<close>

theorem eleven_shots_eleven_bullets:
  "length (bullets ((shoot_bullet inp ^^ 11) (g\<lparr>bullets := []\<rparr>))) = 11"
  by (simp add: length_shoot_bullet_funpow MAX_BULLETS_def)

section \<open>The lifetime of a bullet\<close>









section \<open>The particles of an emitter\<close>

text \<open>A sequence of calls of \<open>generate_particles\<close> and \<open>emmit\<close> on the emitter \<open>d\<close>.\<close>

datatype dp_call = Call_generate_particles Vec2d int | Call_emmit Vec2d Vec2d

fun dp_calls :: "extern \<Rightarrow> ref \<Rightarrow> dp_call list \<Rightarrow> Game \<Rightarrow> Game" where
  "dp_calls X d [] g = g"
| "dp_calls X d (Call_generate_particles pos n # cs) g =
     dp_calls X d cs (generate_particles X d pos n g)"
| "dp_calls X d (Call_emmit pos vel # cs) g = dp_calls X d cs (emmit X d pos vel g)"

definition emitted_ok :: "ref \<Rightarrow> Game \<Rightarrow> bool" where
  "emitted_ok d g =
     (generated (death_heap g d) \<le> MAX_GENERATED \<and>
      int (length (dp_particles (death_heap g d))) = generated (death_heap g d))"

lemma emmit_emitted_ok: "emitted_ok d g \<Longrightarrow> emitted_ok d (emmit X d pos vel g)"
  by (simp add: emitted_ok_def emmit_def keep_generating_def Let_def space_add_def)

lemma generate_loop_emitted_ok:
  "emitted_ok d g \<Longrightarrow> emitted_ok d (generate_loop n X d pos g)"
proof (induction n arbitrary: g)
  case 0
  then show ?case by simp
next
  case (Suc n)
  from Suc.prems have "emitted_ok d (g\<lparr>rnd_pos := rnd_pos g + 4\<rparr>)"
    by (simp add: emitted_ok_def)
  then show ?case
    by (simp add: Let_def Suc.IH emmit_emitted_ok)
qed

lemma generate_particles_emitted_ok:
  "emitted_ok d g \<Longrightarrow> emitted_ok d (generate_particles X d pos n g)"
  by (simp add: generate_particles_def generate_loop_emitted_ok)

lemma dp_calls_emitted_ok: "emitted_ok d g \<Longrightarrow> emitted_ok d (dp_calls X d cs g)"
  by (induction X d cs g rule: dp_calls.induct)
     (simp_all add: emmit_emitted_ok generate_particles_emitted_ok)

text \<open>
  Claim C6. Whatever calls of \<open>generate_particles\<close> and \<open>emmit\<close> are made on a new
  emitter, with whatever batch sizes, its counter \<open>generated\<close> never exceeds
  \<open>MAX_GENERATED = 100\<close>, and the number of particles appended to its list is that counter.
\<close>

theorem DeathParticles_generated_bound:
  assumes "death_heap g d = DeathParticles_init"
  shows "generated (death_heap (dp_calls X d cs g) d) \<le> MAX_GENERATED \<and>
     int (length (dp_particles (death_heap (dp_calls X d cs g) d))) =
       generated (death_heap (dp_calls X d cs g) d)"
proof -
  from assms have "emitted_ok d g"
    by (simp add: emitted_ok_def DeathParticles_init_def MAX_GENERATED_def)
  then have "emitted_ok d (dp_calls X d cs g)"
    by (rule dp_calls_emitted_ok)
  then show ?thesis
    by (simp add: emitted_ok_def)
qed

theorem DeathParticles_generated_bound_witness:
  "death_heap g_base 7 = DeathParticles_init \<and>
   generated (death_heap (dp_calls X0 7
      [Call_generate_particles (0, 0) 250, Call_emmit (0, 0) (1, 1),
       Call_generate_particles (0, 0) 100] g_base) 7) \<le> MAX_GENERATED"
  using DeathParticles_generated_bound [of g_base 7 X0
      "[Call_generate_particles (0, 0) 250, Call_emmit (0, 0) (1, 1),
        Call_generate_particles (0, 0) 100]"]
  by (simp add: g_base_def)

section \<open>One update of the game\<close>

lemma apply_event_frame:
  "state (apply_event ev g) = state g \<or> state (apply_event ev g) = GAME_OVER"
  "enemies (apply_event ev g) = enemies g"
  "bullets (apply_event ev g) = bullets g"
  "lives (enemy_heap (apply_event ev g) e) = lives (enemy_heap g e)"
  by (cases ev; simp add: Enemy_begin_def Let_def space_remove_def message_def
      handle_hit_player_def)+

lemma space_step_frame:
  "(state (space_step evs g) = state g \<or> state (space_step evs g) = GAME_OVER) \<and>
   enemies (space_step evs g) = enemies g \<and>
   bullets (space_step evs g) = bullets g \<and>
   lives (enemy_heap (space_step evs g) e) = lives (enemy_heap g e)"
  unfolding space_step_def
proof (induction evs arbitrary: g)
  case Nil
  then show ?case by simp
next
  case (Cons ev evs)
  from Cons.IH[of "apply_event ev g"] apply_event_frame(1-3)[of ev g]
    apply_event_frame(4)[of ev g e]
  show ?case by auto
qed

lemma bullets_loop_frame:
  "bullets_loop X i g = Inr g1 \<Longrightarrow>
     state g1 = state g \<and> player g1 = player g \<and> set (enemies g1) \<subseteq> set (enemies g)"
proof (induction X i g rule: bullets_loop.induct)
  case (1 X i g)
  show ?case
  proof (cases "i < length (bullets g)")
    case False
    with "1.prems" show ?thesis by (simp add: bullets_loop.simps)
  next
    case True
    with "1.prems" obtain g2 g3 where
      u: "bullet_update (bullets g ! i) g = Inr g2" and
      v: "verify_bullet_hit_enemies X (bullets g ! i) g2 = Inr g3" and
      l: "bullets_loop X (Suc i) g3 = Inr g1"
      by (auto simp: bullets_loop.simps[of X i g] split: sum.splits)
    from "1.IH"[OF True u v l] bullet_update_frame[OF u] verify_bullet_hit_enemies_frame[OF v]
    show ?thesis by auto
  qed
qed

lemma emitters_loop_frame:
  "emitters_loop X i g = Inr g1 \<Longrightarrow>
     state g1 = state g \<and> player g1 = player g \<and> enemies g1 = enemies g \<and>
     bullets g1 = bullets g \<and> enemy_heap g1 = enemy_heap g \<and> bullet_heap g1 = bullet_heap g"
proof (induction X i g rule: emitters_loop.induct)
  case (1 X i g)
  show ?case
  proof (cases "i < length (particles g)")
    case False
    with "1.prems" show ?thesis by (simp add: emitters_loop.simps)
  next
    case True
    with "1.prems" obtain g2 where
      u: "DeathParticles_update X (particles g ! i) g = Inr g2" and
      l: "emitters_loop X (Suc i) g2 = Inr g1"
      by (auto simp: emitters_loop.simps[of X i g] split: sum.splits)
    from "1.IH"[OF True u l] DeathParticles_update_frame[OF u]
    show ?thesis by simp
  qed
qed

lemma shoot_bullet_frame [simp]:
  "state (shoot_bullet inp g) = state g"
  "enemies (shoot_bullet inp g) = enemies g"
  "enemy_heap (shoot_bullet inp g) = enemy_heap g"
  by (simp_all add: shoot_bullet_def Let_def)

text \<open>The stages of \<open>Game.update\<close> when no exception is raised.\<close>

lemma update_stages:
  assumes "update X fr g = Inr g'"
  obtains g2 g3 g4 g5 where
    "g2 = (if state (space_step (events fr) g) \<noteq> GAME_OVER
           then (space_step (events fr) g)
                  \<lparr>player := Player_update (input fr) (player (space_step (events fr) g))\<rparr>
           else space_step (events fr) g)"
    "bullets_loop X 0 g2 = Inr g3"
    "emitters_loop X 0 g3 = Inr g4"
    "g5 = (if state g4 = RUNNING \<and> btnp_MOUSE_LEFT (input fr)
           then shoot_bullet (input fr) g4 else g4)"
    "g' = (if length (enemies g5) = 0 then g5\<lparr>state := HAS_WON\<rparr> else g5)"
  using assms unfolding update_def Let_def
  by (auto split: sum.splits)

lemma update_state:
  assumes "update X fr g = Inr g'"
  shows "set (enemies g') \<subseteq> set (enemies g)"
    and "enemies g' = [] \<Longrightarrow> state g' = HAS_WON"
    and "enemies g' \<noteq> [] \<Longrightarrow> state g' = state g \<or> state g' = GAME_OVER"
proof -
  from assms obtain g2 g3 g4 g5 where
    g2: "g2 = (if state (space_step (events fr) g) \<noteq> GAME_OVER
           then (space_step (events fr) g)
                  \<lparr>player := Player_update (input fr) (player (space_step (events fr) g))\<rparr>
           else space_step (events fr) g)" and
    g3: "bullets_loop X 0 g2 = Inr g3" and
    g4: "emitters_loop X 0 g3 = Inr g4" and
    g5: "g5 = (if state g4 = RUNNING \<and> btnp_MOUSE_LEFT (input fr)
           then shoot_bullet (input fr) g4 else g4)" and
    g': "g' = (if length (enemies g5) = 0 then g5\<lparr>state := HAS_WON\<rparr> else g5)"
    by (rule update_stages)
  from g2 have s2: "state g2 = state (space_step (events fr) g)"
    and e2: "enemies g2 = enemies (space_step (events fr) g)"
    by simp_all
  from space_step_frame[of "events fr" g] s2 e2
  have s2': "state g2 = state g \<or> state g2 = GAME_OVER" and e2': "enemies g2 = enemies g"
    by auto
  from bullets_loop_frame[OF g3] emitters_loop_frame[OF g4] g5
  have s5: "state g5 = state g2" and e5: "set (enemies g5) \<subseteq> set (enemies g2)"
    by auto
  from g' have e': "enemies g' = enemies g5"
    by simp
  show "set (enemies g') \<subseteq> set (enemies g)"
    using e' e5 e2' by simp
  show "state g' = HAS_WON" if "enemies g' = []"
    using that g' e' by simp
  show "state g' = state g \<or> state g' = GAME_OVER" if "enemies g' \<noteq> []"
    using that g' e' s5 s2' by auto
qed

section \<open>The emitters never raise\<close>

text \<open>
  The particle lists of the emitters hold distinct references, all allocated before
  \<open>next_ref\<close>.
\<close>

definition dp_wf :: "Game \<Rightarrow> bool" where
  "dp_wf g =
     (\<forall>d. distinct (dp_particles (death_heap g d)) \<and>
          (\<forall>p\<in>set (dp_particles (death_heap g d)). p < next_ref g))"

lemma emmit_dp_wf: "dp_wf g \<Longrightarrow> dp_wf (emmit X d pos vel g)"
  unfolding dp_wf_def emmit_def Let_def space_add_def
  by (auto simp: less_Suc_eq)

lemma generate_loop_dp_wf: "dp_wf g \<Longrightarrow> dp_wf (generate_loop n X d pos g)"
proof (induction n arbitrary: g)
  case 0
  then show ?case by simp
next
  case (Suc n)
  from Suc.prems have "dp_wf (g\<lparr>rnd_pos := rnd_pos g + 4\<rparr>)"
    by (simp add: dp_wf_def)
  then show ?case
    by (simp add: Let_def Suc.IH emmit_dp_wf)
qed

lemma generate_particles_dp_wf: "dp_wf g \<Longrightarrow> dp_wf (generate_particles X d pos n g)"
  by (simp add: generate_particles_def generate_loop_dp_wf)

lemma del_enemy_dp_wf:
  assumes "dp_wf g" and "del_enemy X e g = Inr g1"
  shows "dp_wf g1"
proof -
  let ?g4 = "g\<lparr>enemies := remove1 e (enemies g),
                space := removeAll (EnemyBody e) (space g),
                next_ref := Suc (next_ref g),
                death_heap := (death_heap g)(next_ref g := DeathParticles_init),
                rnd_pos := Suc (rnd_pos g)\<rparr>"
  from assms(1) have "dp_wf ?g4"
    by (auto simp: dp_wf_def DeathParticles_init_def less_Suc_eq)
  then have "dp_wf (generate_particles X (next_ref g)
      (local_to_world X e (rnd_real X (rnd_pos g), - 3)) 100 ?g4)"
    by (rule generate_particles_dp_wf)
  moreover from assms(2) have "g1 = (generate_particles X (next_ref g)
      (local_to_world X e (rnd_real X (rnd_pos g), - 3)) 100 ?g4)
      \<lparr>particles := particles g @ [next_ref g]\<rparr>"
    by (auto simp: del_enemy_def Let_def space_remove_def split: if_splits)
  ultimately show ?thesis
    by (simp add: dp_wf_def)
qed

lemma particle_step_total:
  assumes "p \<in> set (dp_particles (death_heap g d))" and "dp_wf g"
  shows "\<exists>g1. particle_step X d p g = Inr g1 \<and> dp_wf g1 \<and> particles g1 = particles g \<and>
           set (dp_particles (death_heap g d)) - {p} \<subseteq> set (dp_particles (death_heap g1 d))"
  using assms unfolding particle_step_def Let_def dp_wf_def space_remove_def
  by (auto dest: set_remove1_subset[THEN subsetD])

lemma particles_loop_total:
  assumes "distinct ps" and "set ps \<subseteq> set (dp_particles (death_heap g d))" and "dp_wf g"
  shows "\<exists>g1. particles_loop ps X d g = Inr g1 \<and> dp_wf g1 \<and> particles g1 = particles g"
  using assms
proof (induction ps arbitrary: g)
  case Nil
  then show ?case by simp
next
  case (Cons p ps)
  from Cons.prems have "p \<in> set (dp_particles (death_heap g d))"
    by simp
  from particle_step_total[OF this Cons.prems(3)] obtain g2 where
    s: "particle_step X d p g = Inr g2" and w: "dp_wf g2" and
    q: "particles g2 = particles g" and
    r: "set (dp_particles (death_heap g d)) - {p} \<subseteq> set (dp_particles (death_heap g2 d))"
    by blast
  from Cons.prems r have "distinct ps" "set ps \<subseteq> set (dp_particles (death_heap g2 d))"
    by auto
  from Cons.IH[OF this w] s q show ?case
    by auto
qed

lemma DeathParticles_update_total:
  assumes "dp_wf g" and "d \<in> set (particles g)"
  shows "\<exists>g1. DeathParticles_update X d g = Inr g1 \<and> dp_wf g1"
proof -
  from assms(1) have "distinct (dp_particles (death_heap g d))"
    by (simp add: dp_wf_def)
  from particles_loop_total[OF this subset_refl assms(1)] obtain g2 where
    "particles_loop (dp_particles (death_heap g d)) X d g = Inr g2" "dp_wf g2"
    "particles g2 = particles g"
    by blast
  with assms(2) show ?thesis
    by (auto simp: DeathParticles_update_def remove_death_particle_def dp_wf_def)
qed

lemma emitters_loop_total:
  "dp_wf g \<Longrightarrow> \<exists>g1. emitters_loop X i g = Inr g1"
proof (induction X i g rule: emitters_loop.induct)
  case (1 X i g)
  show ?case
  proof (cases "i < length (particles g)")
    case False
    then show ?thesis by (simp add: emitters_loop.simps)
  next
    case True
    then have "particles g ! i \<in> set (particles g)"
      by simp
    from DeathParticles_update_total[OF "1.prems" this] obtain g2 where
      u: "DeathParticles_update X (particles g ! i) g = Inr g2" and w: "dp_wf g2"
      by blast
    from "1.IH"[OF True u w] True u show ?thesis
      by (simp add: emitters_loop.simps[of X i g])
  qed
qed


text \<open>
  The game is over, one enemy with one life is left, and a bullet is in flight at the
  centre of that enemy.
\<close>

definition g_over :: Game where
  "g_over = g_base\<lparr>state := GAME_OVER, enemies := [0], bullets := [2],
     enemy_heap := (enemy_heap g_base)(0 := \<lparr>e_position = (0, 0), radius = 4, lives = 1\<rparr>)\<rparr>"

lemma g_over_update: "\<exists>g'. update X0 quiet g_over = Inr g' \<and> enemies g' = []"
proof -
  define gA where "gA = g_over\<lparr>bullet_heap := (bullet_heap g_over)
      (2 := \<lparr>b_position = (0, 0), b_velocity = (0, 0), life_time = 149\<rparr>)\<rparr>"
  define gB where "gB = gA\<lparr>bullets := [],
      enemy_heap := (enemy_heap gA)(0 := \<lparr>e_position = (0, 0), radius = 4, lives = 0\<rparr>)\<rparr>"
  have A: "bullet_update 2 g_over = Inr gA"
    by (simp add: bullet_update_def Bullet_update_def Let_def vadd_def gA_def g_over_def
        g_base_def)
  have "0 \<in> set (enemies gB)"
    by (simp add: gB_def gA_def g_over_def)
  then obtain gC where C: "del_enemy X0 0 gB = Inr gC"
    by (auto simp: del_enemy_def Let_def)
  have "dp_wf gB"
    by (simp add: dp_wf_def gB_def gA_def g_over_def g_base_def DeathParticles_init_def)
  then have wC: "dp_wf gC"
    using C by (rule del_enemy_dp_wf)
  from del_enemy_frame[OF C]
  have fC: "enemies gC = []" "bullets gC = []" "state gC = GAME_OVER"
    by (simp_all add: gB_def gA_def g_over_def)
  have H: "hit_enemy X0 2 0 gA = Inr gC"
    using C by (simp add: hit_enemy_def del_bullet_def Let_def gB_def gA_def g_over_def
        g_base_def)
  have fA: "enemies gA = [0]" "b_position (bullet_heap gA 2) = (0, 0)"
    "e_position (enemy_heap gA 0) = (0, 0)" "radius (enemy_heap gA 0) = 4"
    by (simp_all add: gA_def g_over_def g_base_def)
  have V: "verify_bullet_hit_enemies X0 2 gA = Inr gC"
    using H fC fA
    by (simp add: verify_bullet_hit_enemies_def enemies_loop.simps[of _ _ _ 0 gA]
        enemies_loop.simps[of _ _ _ "Suc 0" gC] check_enemy_def Let_def)
  have "bullets g_over = [2]"
    by (simp add: g_over_def)
  then have B: "bullets_loop X0 0 g_over = Inr gC"
    using A V fC
    by (simp add: bullets_loop.simps[of _ 0 g_over] bullets_loop.simps[of _ "Suc 0" gC])
  from emitters_loop_total[OF wC] obtain gD where D: "emitters_loop X0 0 gC = Inr gD"
    by blast
  from emitters_loop_frame[OF D] fC have fD: "enemies gD = []" "state gD = GAME_OVER"
    by simp_all
  have "state g_over = GAME_OVER"
    by (simp add: g_over_def)
  then have "update X0 quiet g_over = Inr (gD\<lparr>state := HAS_WON\<rparr>)"
    using B D fD
    by (simp add: update_def space_step_def quiet_def Let_def)
  then show ?thesis
    using fD by simp
qed

section \<open>The state of the game\<close>

text \<open>
  Claim C2, as amended. Once the state is \<open>GAME_OVER\<close> or \<open>HAS_WON\<close>, no update and no
  message brings it back to \<open>RUNNING\<close>. An update leaves \<open>HAS_WON\<close> as it is (the list of
  enemies is empty whenever the state is \<open>HAS_WON\<close>), and it turns \<open>GAME_OVER\<close> into
  \<open>HAS_WON\<close> exactly when the list of enemies is empty at its end. The message
  \<open>hit_player\<close> sets \<open>GAME_OVER\<close> in any state \<open>h\<close> of the game, \<open>HAS_WON\<close> included.
\<close>

theorem terminal_state_never_running:
  assumes "state g \<noteq> RUNNING" and "state g = HAS_WON \<longrightarrow> enemies g = []"
  shows "(update X fr g = Inr g' \<longrightarrow>
            state g' \<noteq> RUNNING \<and>
            (state g = HAS_WON \<longrightarrow> state g' = HAS_WON) \<and>
            (state g = GAME_OVER \<longrightarrow>
               state g' = (if enemies g' = [] then HAS_WON else GAME_OVER))) \<and>
         state (message msg sender g) \<noteq> RUNNING \<and>
         state (message ''hit_player'' sender h) = GAME_OVER"
proof -
  have "state (message msg sender g) \<noteq> RUNNING"
    using assms(1) by (simp add: message_def handle_hit_player_def)
  moreover have "state (message ''hit_player'' sender h) = GAME_OVER"
    by (simp add: message_def handle_hit_player_def)
  moreover have "state g' \<noteq> RUNNING \<and>
            (state g = HAS_WON \<longrightarrow> state g' = HAS_WON) \<and>
            (state g = GAME_OVER \<longrightarrow>
               state g' = (if enemies g' = [] then HAS_WON else GAME_OVER))"
    if u: "update X fr g = Inr g'"
  proof (cases "enemies g' = []")
    case True
    with update_state(2)[OF u] show ?thesis by simp
  next
    case False
    with update_state(1)[OF u] assms(2) have "state g \<noteq> HAS_WON"
      by auto
    with assms(1) have "state g = GAME_OVER"
      by (cases "state g") simp_all
    with update_state(3)[OF u False] False show ?thesis by auto
  qed
  ultimately show ?thesis by blast
qed

theorem terminal_state_never_running_witness:
  "state g_over = GAME_OVER \<and>
   update X0 quiet g_over = Inr (projr (update X0 quiet g_over)) \<and>
   state (projr (update X0 quiet g_over)) \<noteq> RUNNING \<and>
   state (message ''hit_player'' 0 g_over) \<noteq> RUNNING \<and>
   state (g_base\<lparr>state := HAS_WON\<rparr>) = HAS_WON \<and>
   state (message ''hit_player'' 0 (g_base\<lparr>state := HAS_WON\<rparr>)) = GAME_OVER"
proof -
  have s: "state g_over = GAME_OVER"
    by (simp add: g_over_def)
  from g_over_update have u: "update X0 quiet g_over = Inr (projr (update X0 quiet g_over))"
    by auto
  from terminal_state_never_running [of g_over X0 quiet "projr (update X0 quiet g_over)"
      "''hit_player''" 0 "g_base\<lparr>state := HAS_WON\<rparr>"] s u
  show ?thesis by simp
qed

text \<open>
  Claim C2 as stated fails: the update in which the bullet in flight kills the last enemy
  turns \<open>GAME_OVER\<close> into \<open>HAS_WON\<close>, and the message \<open>hit_player\<close> turns \<open>HAS_WON\<close> into
  \<open>GAME_OVER\<close>.
\<close>

theorem game_over_to_has_won_counterexample:
  "state g_over = GAME_OVER \<and>
   update X0 quiet g_over = Inr (projr (update X0 quiet g_over)) \<and>
   state (projr (update X0 quiet g_over)) = HAS_WON \<and>
   state (message ''hit_player'' 0 (g_base\<lparr>state := HAS_WON\<rparr>)) = GAME_OVER"
proof -
  from g_over_update obtain g' where u: "update X0 quiet g_over = Inr g'"
    and e: "enemies g' = []"
    by blast
  from update_state(2)[OF u e] u show ?thesis
    by (simp add: g_over_def message_def handle_hit_player_def)
qed

text \<open>
  Claim C9. From a state in which \<open>HAS_WON\<close> is held only with an empty list of enemies,
  at the end of an update the state is \<open>HAS_WON\<close> if and only if the list of enemies is
  empty. The initial state is \<open>RUNNING\<close> and the conclusion gives the hypothesis back, so
  this is so at the end of every update of a game.
\<close>

theorem update_win_condition:
  assumes "state g = HAS_WON \<longrightarrow> enemies g = []" and "update X fr g = Inr g'"
  shows "(state g' = HAS_WON) = (enemies g' = [])"
proof (cases "enemies g' = []")
  case True
  with update_state(2)[OF assms(2)] show ?thesis by simp
next
  case False
  with update_state(1)[OF assms(2)] assms(1) have "state g \<noteq> HAS_WON"
    by auto
  with update_state(3)[OF assms(2) False] False show ?thesis by auto
qed

lemma Game_init_state: "state (Game_init X m) = RUNNING"
proof -
  have "state (create_enemies n X g) = state g" for n g
    by (induction n arbitrary: g) (simp_all add: Let_def space_add_def)
  then show ?thesis
    by (simp add: Game_init_def)
qed

definition g_live :: Game where
  "g_live = g_base\<lparr>enemies := [0]\<rparr>"

theorem update_win_condition_witness:
  "state g_over = GAME_OVER \<and>
   update X0 quiet g_over = Inr (projr (update X0 quiet g_over)) \<and>
   state (projr (update X0 quiet g_over)) = HAS_WON \<and>
   enemies (projr (update X0 quiet g_over)) = [] \<and>
   state g_live = RUNNING \<and>
   update X0 quiet g_live = Inr (projr (update X0 quiet g_live)) \<and>
   state (projr (update X0 quiet g_live)) = RUNNING \<and>
   enemies (projr (update X0 quiet g_live)) = [0]"
proof -
  have s: "state g_over = GAME_OVER"
    by (simp add: g_over_def)
  from g_over_update have u: "update X0 quiet g_over = Inr (projr (update X0 quiet g_over))"
    and e: "enemies (projr (update X0 quiet g_over)) = []"
    by auto
  have l: "update X0 quiet g_live =
      Inr (g_live\<lparr>player := Player_update no_input (player g_live)\<rparr>)"
    by (simp add: update_def space_step_def quiet_def no_input_def g_live_def g_base_def
        bullets_loop.simps emitters_loop.simps Let_def)
  from update_win_condition [of g_over X0 quiet "projr (update X0 quiet g_over)"]
    update_win_condition [of g_live X0 quiet "projr (update X0 quiet g_live)"] s u e l
  show ?thesis
    by (simp add: g_live_def g_base_def)
qed

section \<open>The lives of the enemies\<close>

text \<open>
  For the enemies \<open>A\<close> of a game: the list of enemies holds each of them at most once,
  every enemy has between 0 and 4 lives, and it is in the list exactly when it has a
  life left.
\<close>

definition enemy_inv :: "ref set \<Rightarrow> Game \<Rightarrow> bool" where
  "enemy_inv A g =
     (distinct (enemies g) \<and> set (enemies g) \<subseteq> A \<and>
      (\<forall>e\<in>A. 0 \<le> lives (enemy_heap g e) \<and> lives (enemy_heap g e) \<le> 4 \<and>
              (e \<in> set (enemies g)) = (0 < lives (enemy_heap g e))))"

lemma enemy_inv_cong:
  assumes "enemy_inv A g" and "enemies g1 = enemies g"
    and "\<And>e. lives (enemy_heap g1 e) = lives (enemy_heap g e)"
  shows "enemy_inv A g1"
  using assms by (simp add: enemy_inv_def)

lemma hit_enemy_inv:
  assumes inv: "enemy_inv A g" and e: "e \<in> set (enemies g)"
    and h: "hit_enemy X b e g = Inr g1"
  shows "enemy_inv A g1"
proof -
  from h obtain g0 where d: "del_bullet b g = Inr g0"
    by (auto simp: hit_enemy_def split: sum.splits)
  note f0 = del_bullet_frame(3,5)[OF d]
  let ?g2 = "g0\<lparr>enemy_heap := (enemy_heap g0)
      (e := (enemy_heap g0 e)\<lparr>lives := lives (enemy_heap g0 e) - 1\<rparr>)\<rparr>"
  from inv e have l: "0 < lives (enemy_heap g e)" "lives (enemy_heap g e) \<le> 4" "e \<in> A"
    by (auto simp: enemy_inv_def)
  show ?thesis
  proof (cases "lives (enemy_heap g e) - 1 \<le> 0")
    case True
    with h d f0 have k: "del_enemy X e ?g2 = Inr g1"
      by (simp add: hit_enemy_def Let_def)
    from del_enemy_frame(3,5)[OF k] f0
    have "enemies g1 = remove1 e (enemies g)"
      "enemy_heap g1 = (enemy_heap g)
         (e := (enemy_heap g e)\<lparr>lives := lives (enemy_heap g e) - 1\<rparr>)"
      by simp_all
    with inv l True show ?thesis
      by (auto simp: enemy_inv_def dest: set_remove1_subset[THEN subsetD])
  next
    case False
    with h d f0 have "g1 = ?g2"
      by (simp add: hit_enemy_def Let_def)
    with inv l False f0 show ?thesis
      by (auto simp: enemy_inv_def)
  qed
qed

lemma check_enemy_inv:
  assumes "enemy_inv A g" and "e \<in> set (enemies g)" and "check_enemy X b bp e g = Inr g1"
  shows "enemy_inv A g1"
  using assms
  by (auto simp: check_enemy_def Let_def split: if_splits intro: hit_enemy_inv)

lemma enemies_loop_inv:
  "enemy_inv A g \<Longrightarrow> enemies_loop X b bp j g = Inr g1 \<Longrightarrow> enemy_inv A g1"
proof (induction X b bp j g rule: enemies_loop.induct)
  case (1 X b bp j g)
  show ?case
  proof (cases "j < length (enemies g)")
    case False
    with "1.prems" show ?thesis by (simp add: enemies_loop.simps)
  next
    case True
    with "1.prems" obtain g2 where
      c: "check_enemy X b bp (enemies g ! j) g = Inr g2" and
      l: "enemies_loop X b bp (Suc j) g2 = Inr g1"
      by (auto simp: enemies_loop.simps[of X b bp j g] split: sum.splits)
    from True have "enemies g ! j \<in> set (enemies g)"
      by simp
    from check_enemy_inv[OF "1.prems"(1) this c] have "enemy_inv A g2" .
    from "1.IH"[OF True c this l] show ?thesis .
  qed
qed

lemma bullets_loop_inv:
  "enemy_inv A g \<Longrightarrow> bullets_loop X i g = Inr g1 \<Longrightarrow> enemy_inv A g1"
proof (induction X i g rule: bullets_loop.induct)
  case (1 X i g)
  show ?case
  proof (cases "i < length (bullets g)")
    case False
    with "1.prems" show ?thesis by (simp add: bullets_loop.simps)
  next
    case True
    with "1.prems" obtain g2 g3 where
      u: "bullet_update (bullets g ! i) g = Inr g2" and
      v: "verify_bullet_hit_enemies X (bullets g ! i) g2 = Inr g3" and
      l: "bullets_loop X (Suc i) g3 = Inr g1"
      by (auto simp: bullets_loop.simps[of X i g] split: sum.splits)
    from "1.prems"(1) bullet_update_frame(3,4)[OF u] have "enemy_inv A g2"
      by (simp add: enemy_inv_def)
    with v have "enemy_inv A g3"
      unfolding verify_bullet_hit_enemies_def by (rule enemies_loop_inv[rotated])
    from "1.IH"[OF True u v this l] show ?thesis .
  qed
qed

lemma update_enemy_inv:
  assumes "enemy_inv A g" and "update X fr g = Inr g'"
  shows "enemy_inv A g'"
proof -
  from assms(2) obtain g2 g3 g4 g5 where
    g2: "g2 = (if state (space_step (events fr) g) \<noteq> GAME_OVER
           then (space_step (events fr) g)
                  \<lparr>player := Player_update (input fr) (player (space_step (events fr) g))\<rparr>
           else space_step (events fr) g)" and
    g3: "bullets_loop X 0 g2 = Inr g3" and
    g4: "emitters_loop X 0 g3 = Inr g4" and
    g5: "g5 = (if state g4 = RUNNING \<and> btnp_MOUSE_LEFT (input fr)
           then shoot_bullet (input fr) g4 else g4)" and
    g': "g' = (if length (enemies g5) = 0 then g5\<lparr>state := HAS_WON\<rparr> else g5)"
    by (rule update_stages)
  have "enemy_inv A g2"
  proof (rule enemy_inv_cong[OF assms(1)])
    show "enemies g2 = enemies g"
      using g2 space_step_frame[of "events fr" g] by simp
    show "lives (enemy_heap g2 e) = lives (enemy_heap g e)" for e
      using g2 space_step_frame[of "events fr" g e] by simp
  qed
  from bullets_loop_inv[OF this g3] have "enemy_inv A g3" .
  with emitters_loop_frame[OF g4] have "enemy_inv A g4"
    by (simp add: enemy_inv_def)
  with g5 have "enemy_inv A g5"
    by (simp add: enemy_inv_def)
  with g' show ?thesis
    by (auto simp: enemy_inv_def)
qed

lemma run_enemy_inv:
  "enemy_inv A g \<Longrightarrow> run X frs g = Inr g' \<Longrightarrow> enemy_inv A g'"
proof (induction frs arbitrary: g)
  case Nil
  then show ?case by simp
next
  case (Cons fr frs)
  from Cons.prems(2) obtain g1 where u: "update X fr g = Inr g1" and r: "run X frs g1 = Inr g'"
    by (auto split: sum.splits)
  from Cons.IH[OF update_enemy_inv[OF Cons.prems(1) u] r] show ?case .
qed

lemma create_enemies_fresh:
  assumes "distinct (enemies g)" and "\<forall>e\<in>set (enemies g). e < next_ref g"
    and "\<forall>e. lives (enemy_heap g e) = 4"
  shows "distinct (enemies (create_enemies n X g)) \<and>
     (\<forall>e. lives (enemy_heap (create_enemies n X g) e) = 4)"
  using assms
proof (induction n arbitrary: g)
  case 0
  then show ?case by simp
next
  case (Suc n)
  let ?g = "g\<lparr>rnd_pos := rnd_pos g + 6, next_ref := Suc (next_ref g),
      enemy_heap := (enemy_heap g)
        (next_ref g := \<lparr>e_position = (rnd_real X (rnd_pos g + 2), rnd_real X (rnd_pos g + 3)),
                         radius = real_of_int (rnd_int X (rnd_pos g + 5)), lives = 4\<rparr>),
      space := space g @ [EnemyBody (next_ref g)],
      enemies := enemies g @ [next_ref g]\<rparr>"
  have "create_enemies (Suc n) X g = create_enemies n X ?g"
    by (simp add: Let_def space_add_def)
  moreover from Suc.prems have "distinct (enemies ?g)" "\<forall>e\<in>set (enemies ?g). e < next_ref ?g"
    "\<forall>e. lives (enemy_heap ?g e) = 4"
    by (auto simp: less_Suc_eq)
  ultimately show ?case
    using Suc.IH[of ?g] by simp
qed

lemma Game_init_enemy_inv: "enemy_inv (set (enemies (Game_init X m))) (Game_init X m)"
proof -
  have "distinct (enemies (Game_init X m)) \<and> (\<forall>e. lives (enemy_heap (Game_init X m) e) = 4)"
    unfolding Game_init_def by (rule create_enemies_fresh) simp_all
  then show ?thesis
    by (simp add: enemy_inv_def)
qed

text \<open>
  A game whose first enemy is at \<open>(53, 50)\<close> with radius 4 and whose other enemies are far
  away, and a frame with a click to the right of the player.
\<close>

definition X1 :: extern where
  "X1 = \<lparr>rnd_real = (\<lambda>n. if n = 2 then 53 else if n = 3 then 50 else 1000 + real n),
          rnd_int = (\<lambda>_. 4), local_to_world = (\<lambda>e v. v)\<rparr>"

definition click :: frame where
  "click = \<lparr>events = [], input = no_input\<lparr>btnp_MOUSE_LEFT := True, mouse_x := 200,
     mouse_y := 50\<rparr>\<rparr>"

lemmas run_eval = Game_init_def INITIAL_ENEMIES_def eval_nat_numeral Let_def space_add_def
      X1_def click_def quiet_def no_input_def update_def space_step_def Player_update_def
      Player_init_def vadd_def bullets_loop.simps enemies_loop.simps emitters_loop.simps
      shoot_bullet_def correct_mouse_distance_def WIDTH_def Bullet_init_def atan2_def
      MAX_BULLETS_def bullet_update_def Bullet_update_def verify_bullet_hit_enemies_def
      check_enemy_def hit_enemy_def del_bullet_def

text \<open>
  Four frames with a click: each bullet hits the first enemy in the frame after its shot,
  so that the first enemy is left with one life and the fourth bullet is in flight. A
  fifth frame, then, in which that bullet takes the last life.
\<close>

definition clicks4 :: "frame list" where
  "clicks4 = [click, click, click, click]"

definition g_one_life :: Game where
  "g_one_life = projr (run X1 clicks4 (Game_init X1 1))"

definition g_dead :: Game where
  "g_dead = projr (run X1 (clicks4 @ [quiet]) (Game_init X1 1))"

lemma run_clicks4:
  "map_sum id
     (\<lambda>g. (state g, enemies g, bullets g, particles g, map (enemy_heap g) [0, 1, 2, 3, 4],
           bullet_heap g 8, death_heap g))
     (run X1 clicks4 (Game_init X1 1)) =
   Inr (RUNNING, [0, 1, 2, 3, 4], [8], [],
        [\<lparr>e_position = (53, 50), radius = 4, lives = 1\<rparr>,
         \<lparr>e_position = (1008, 1009), radius = 4, lives = 4\<rparr>,
         \<lparr>e_position = (1014, 1015), radius = 4, lives = 4\<rparr>,
         \<lparr>e_position = (1020, 1021), radius = 4, lives = 4\<rparr>,
         \<lparr>e_position = (1026, 1027), radius = 4, lives = 4\<rparr>],
        \<lparr>b_position = (50, 50), b_velocity = (1, 0), life_time = 150\<rparr>,
        \<lambda>_. DeathParticles_init)"
  by (simp add: clicks4_def run_eval)

lemma g_one_life:
  "run X1 clicks4 (Game_init X1 1) = Inr g_one_life"
  "state g_one_life = RUNNING" "enemies g_one_life = [0, 1, 2, 3, 4]"
  "bullets g_one_life = [8]" "particles g_one_life = []"
  "enemy_heap g_one_life 0 = \<lparr>e_position = (53, 50), radius = 4, lives = 1\<rparr>"
  "enemy_heap g_one_life 1 = \<lparr>e_position = (1008, 1009), radius = 4, lives = 4\<rparr>"
  "enemy_heap g_one_life 2 = \<lparr>e_position = (1014, 1015), radius = 4, lives = 4\<rparr>"
  "enemy_heap g_one_life 3 = \<lparr>e_position = (1020, 1021), radius = 4, lives = 4\<rparr>"
  "enemy_heap g_one_life 4 = \<lparr>e_position = (1026, 1027), radius = 4, lives = 4\<rparr>"
  "bullet_heap g_one_life 8 = \<lparr>b_position = (50, 50), b_velocity = (1, 0), life_time = 150\<rparr>"
  "death_heap g_one_life = (\<lambda>_. DeathParticles_init)"
  using run_clicks4 unfolding g_one_life_def
  by (cases "run X1 clicks4 (Game_init X1 1)"; simp)+

lemma run_snoc:
  "run X (frs @ [fr]) g =
     (case run X frs g of Inl err \<Rightarrow> Inl err | Inr g1 \<Rightarrow> update X fr g1)"
  by (induction frs arbitrary: g) (auto split: sum.splits)

text \<open>A hit on an enemy of the list by a bullet of the list returns.\<close>

lemma hit_enemy_returns:
  assumes "b \<in> set (bullets g)" and "e \<in> set (enemies g)"
  shows "\<exists>g1. hit_enemy X b e g = Inr g1 \<and>
     enemy_heap g1 = (enemy_heap g)
       (e := (enemy_heap g e)\<lparr>lives := lives (enemy_heap g e) - 1\<rparr>) \<and>
     enemies g1 = (if lives (enemy_heap g e) - 1 \<le> 0 then remove1 e (enemies g)
                   else enemies g) \<and>
     (dp_wf g \<longrightarrow> dp_wf g1)"
proof -
  let ?g0 = "g\<lparr>bullets := remove1 b (bullets g)\<rparr>"
  let ?g2 = "?g0\<lparr>enemy_heap := (enemy_heap g)
      (e := (enemy_heap g e)\<lparr>lives := lives (enemy_heap g e) - 1\<rparr>)\<rparr>"
  from assms(1) have d: "del_bullet b g = Inr ?g0"
    by (simp add: del_bullet_def)
  show ?thesis
  proof (cases "lives (enemy_heap g e) - 1 \<le> 0")
    case True
    from assms(2) obtain g1 where k: "del_enemy X e ?g2 = Inr g1"
      by (auto simp: del_enemy_def Let_def)
    have "dp_wf g \<Longrightarrow> dp_wf ?g2"
      by (simp add: dp_wf_def)
    with del_enemy_dp_wf[OF _ k] have "dp_wf g \<longrightarrow> dp_wf g1"
      by blast
    with d k True del_enemy_frame(3,5)[OF k] show ?thesis
      by (simp add: hit_enemy_def Let_def)
  next
    case False
    have "dp_wf g \<Longrightarrow> dp_wf ?g2"
      by (simp add: dp_wf_def)
    with d False show ?thesis
      by (simp add: hit_enemy_def Let_def)
  qed
qed


lemma g_dead:
  "run X1 (clicks4 @ [quiet]) (Game_init X1 1) = Inr g_dead"
  "enemies g_dead = [1, 2, 3, 4]" "lives (enemy_heap g_dead 0) = 0"
proof -
  note f = g_one_life
  let ?g2 = "g_one_life\<lparr>player := Player_update no_input (player g_one_life)\<rparr>"
  let ?gA = "?g2\<lparr>bullet_heap := (bullet_heap ?g2)
      (8 := \<lparr>b_position = (51, 50), b_velocity = (1, 0), life_time = 149\<rparr>)\<rparr>"
  have A: "bullet_update 8 ?g2 = Inr ?gA"
    by (simp add: bullet_update_def Bullet_update_def Let_def vadd_def f)
  have "dp_wf ?gA"
    by (simp add: dp_wf_def f DeathParticles_init_def)
  with hit_enemy_returns[of 8 ?gA 0 X1] obtain gC where
    H: "hit_enemy X1 8 0 ?gA = Inr gC" and
    hC: "enemy_heap gC = (enemy_heap g_one_life)
       (0 := \<lparr>e_position = (53, 50), radius = 4, lives = 0\<rparr>)" and
    eC: "enemies gC = [1, 2, 3, 4]" and wC: "dp_wf gC"
    by (auto simp: f)
  from hit_enemy_frame(1,4)[OF H] have fC: "state gC = RUNNING" "bullets gC = []"
    by (simp_all add: f)
  have V: "verify_bullet_hit_enemies X1 8 ?gA = Inr gC"
    using H hC eC
    by (simp add: verify_bullet_hit_enemies_def enemies_loop.simps check_enemy_def Let_def f)
  have B: "bullets_loop X1 0 ?g2 = Inr gC"
    using A V fC
    by (simp add: bullets_loop.simps[of _ 0 ?g2] bullets_loop.simps[of _ "Suc 0" gC] f)
  from emitters_loop_total[OF wC] obtain gD where D: "emitters_loop X1 0 gC = Inr gD"
    by blast
  from emitters_loop_frame[OF D] fC eC hC
  have fD: "state gD = RUNNING" "enemies gD = [1, 2, 3, 4]" "lives (enemy_heap gD 0) = 0"
    by simp_all
  have "update X1 quiet g_one_life = Inr gD"
    using B D fD
    by (simp add: update_def space_step_def quiet_def no_input_def Let_def f)
  with f(1) have "run X1 (clicks4 @ [quiet]) (Game_init X1 1) = Inr gD"
    by (simp add: run_snoc)
  with fD show "run X1 (clicks4 @ [quiet]) (Game_init X1 1) = Inr g_dead"
    "enemies g_dead = [1, 2, 3, 4]" "lives (enemy_heap g_dead 0) = 0"
    by (simp_all add: g_dead_def)
qed

text \<open>
  Claim C5. In every state that a game reaches from its initial state, every enemy
  created by the game has between 0 and 4 lives, and it is in the list of enemies exactly
  when it has a life left. A hit of a bullet of the game on an enemy with a life left
  returns, takes one life, and leaves the enemy in the list exactly when it had more than
  one life: the hit that takes the last life removes the enemy, and nothing else does.
\<close>

theorem enemy_lives_in_range:
  assumes "run X frs (Game_init X m) = Inr g" and "e \<in> set (enemies (Game_init X m))"
  shows "0 \<le> lives (enemy_heap g e) \<and> lives (enemy_heap g e) \<le> 4 \<and>
     (e \<in> set (enemies g)) = (0 < lives (enemy_heap g e)) \<and>
     (b \<in> set (bullets g) \<and> 0 < lives (enemy_heap g e) \<longrightarrow>
        (\<exists>g1. hit_enemy Y b e g = Inr g1 \<and>
              lives (enemy_heap g1 e) = lives (enemy_heap g e) - 1 \<and>
              (e \<in> set (enemies g1)) = (1 < lives (enemy_heap g e))))"
proof -
  from run_enemy_inv[OF Game_init_enemy_inv assms(1)] assms(2)
  have i: "0 \<le> lives (enemy_heap g e) \<and> lives (enemy_heap g e) \<le> 4 \<and>
     (e \<in> set (enemies g)) = (0 < lives (enemy_heap g e))" and d: "distinct (enemies g)"
    by (simp_all add: enemy_inv_def)
  have "\<exists>g1. hit_enemy Y b e g = Inr g1 \<and>
              lives (enemy_heap g1 e) = lives (enemy_heap g e) - 1 \<and>
              (e \<in> set (enemies g1)) = (1 < lives (enemy_heap g e))"
    if b: "b \<in> set (bullets g)" and l: "0 < lives (enemy_heap g e)"
  proof -
    from i l have "e \<in> set (enemies g)"
      by simp
    from hit_enemy_returns[OF b this, of Y] d this show ?thesis
      by auto
  qed
  with i show ?thesis
    by blast
qed

theorem enemy_lives_in_range_witness:
  "run X1 clicks4 (Game_init X1 1) = Inr g_one_life \<and>
   0 \<in> set (enemies (Game_init X1 1)) \<and>
   8 \<in> set (bullets g_one_life) \<and>
   lives (enemy_heap g_one_life 0) = 1 \<and>
   0 \<in> set (enemies g_one_life) \<and>
   hit_enemy X1 8 0 g_one_life = Inr (projr (hit_enemy X1 8 0 g_one_life)) \<and>
   lives (enemy_heap (projr (hit_enemy X1 8 0 g_one_life)) 0) = 0 \<and>
   0 \<notin> set (enemies (projr (hit_enemy X1 8 0 g_one_life))) \<and>
   run X1 (clicks4 @ [quiet]) (Game_init X1 1) = Inr g_dead \<and>
   lives (enemy_heap g_dead 0) = 0 \<and>
   0 \<notin> set (enemies g_dead)"
proof -
  have i: "0 \<in> set (enemies (Game_init X1 1))"
    by (simp add: Game_init_def INITIAL_ENEMIES_def eval_nat_numeral Let_def space_add_def)
  from enemy_lives_in_range [OF g_one_life(1) i, of 8 X1]
    enemy_lives_in_range [OF g_dead(1) i, of 8 X1] i g_one_life g_dead
  show ?thesis
    by auto
qed

section \<open>Removing a bullet twice\<close>

text \<open>
  Two enemies of radius 4 that touch at the origin, where a bullet is; and one enemy with
  a bullet at its centre whose lifetime is used up.
\<close>

definition g_two :: Game where
  "g_two = g_base\<lparr>enemies := [0, 1], bullets := [2],
     enemy_heap := (enemy_heap g_base)
       (0 := \<lparr>e_position = (- 4, 0), radius = 4, lives = 4\<rparr>,
        1 := \<lparr>e_position = (4, 0), radius = 4, lives = 4\<rparr>)\<rparr>"

definition g_expiring :: Game where
  "g_expiring = g_base\<lparr>enemies := [0], bullets := [2],
     bullet_heap := (bullet_heap g_base)
       (2 := \<lparr>b_position = (0, 0), b_velocity = (0, 0), life_time = 0\<rparr>)\<rparr>"

text \<open>
  Claim C8 fails: in one update \<open>del_bullet\<close> is called a second time for a bullet that is
  within the radii of two enemies, and for a bullet whose lifetime ends in the update in
  which it hits an enemy; the second \<open>list.remove\<close> raises \<open>ValueError\<close> and the update
  does not return.
\<close>

theorem second_del_bullet_raises:
  "update X0 quiet g_two = Inl ValueError \<and> update X0 quiet g_expiring = Inl ValueError"
  by (simp add: update_def space_step_def quiet_def no_input_def g_base_def g_two_def
      g_expiring_def Player_update_def Player_init_def vadd_def bullets_loop.simps
      enemies_loop.simps bullet_update_def Bullet_update_def verify_bullet_hit_enemies_def
      check_enemy_def hit_enemy_def del_bullet_def Let_def)

end
